theory Spec2Isabelle
  imports Complex_Main "HOL-Library.Sublist"
begin

section \<open>Python strings\<close>

text \<open>
  The retrieval engine of \<^verbatim>\<open>src/tools/vector_rag_tool.py\<close> works on Python \<^verbatim>\<open>str\<close>
  values. A string is modelled as a list of characters; the characters are the code
  points below 256, and \<^verbatim>\<open>len\<close> is \<open>length\<close>. Whitespace and lower-casing follow
  \<^verbatim>\<open>str.isspace\<close> and \<^verbatim>\<open>str.lower\<close> on that range.
\<close>

definition newline :: char where
  "newline = CHR 0x0A"

definition is_space :: "char \<Rightarrow> bool" where
  "is_space c \<longleftrightarrow> (of_char c :: nat) \<in> {9, 10, 11, 12, 13, 28, 29, 30, 31, 32, 133, 160}"

definition lower_char :: "char \<Rightarrow> char" where
  "lower_char c =
     (let n = (of_char c :: nat)
      in if (65 \<le> n \<and> n \<le> 90) \<or> (192 \<le> n \<and> n \<le> 222 \<and> n \<noteq> 215)
         then char_of (n + 32) else c)"

definition lower :: "string \<Rightarrow> string" where
  "lower s = map lower_char s"

definition lstrip :: "string \<Rightarrow> string" where
  "lstrip s = dropWhile is_space s"

definition rstrip :: "string \<Rightarrow> string" where
  "rstrip s = rev (dropWhile is_space (rev s))"

text \<open>\<^verbatim>\<open>s.strip()\<close>: leading and trailing whitespace removed.\<close>

definition strip :: "string \<Rightarrow> string" where
  "strip s = rstrip (lstrip s)"

text \<open>
  \<^verbatim>\<open>s.split(sep)\<close> for a non-empty separator: a left-to-right scan for non-overlapping
  occurrences; the pieces between them are returned, empty pieces included. The
  argument \<open>cur\<close> is the piece being read. (Python raises ValueError for an empty
  separator; both call sites pass a literal, \<^verbatim>\<open>'\n\n'\<close> or \<^verbatim>\<open>","\<close>.)
\<close>

function split_from :: "string \<Rightarrow> string \<Rightarrow> string \<Rightarrow> string list" where
  "split_from sep cur [] = [cur]"
| "split_from sep cur (c # cs) =
     (if sep \<noteq> [] \<and> prefix sep (c # cs)
      then cur # split_from sep [] (drop (length sep) (c # cs))
      else split_from sep (cur @ [c]) cs)"
  by pat_completeness auto
termination
  by (relation "measure (\<lambda>(sep, cur, s). length s)") (auto simp: neq_Nil_conv)

definition split_sep :: "string \<Rightarrow> string \<Rightarrow> string list" where
  "split_sep s sep = split_from sep [] s"

text \<open>
  \<^verbatim>\<open>s.split()\<close> with no argument: the maximal runs of non-whitespace characters, in
  order; never an empty piece.
\<close>

fun words_from :: "string \<Rightarrow> string \<Rightarrow> string list" where
  "words_from cur [] = (if cur = [] then [] else [cur])"
| "words_from cur (c # cs) =
     (if is_space c
      then (if cur = [] then words_from [] cs else cur # words_from [] cs)
      else words_from (cur @ [c]) cs)"

definition split_ws :: "string \<Rightarrow> string list" where
  "split_ws s = words_from [] s"

text \<open>
  \<^verbatim>\<open>xs[:k]\<close> for a Python integer \<open>k\<close>: the first \<open>k\<close> elements when \<open>k\<close> is not
  negative, and all but the last \<open>-k\<close> elements when it is.
\<close>

definition slice_to :: "'a list \<Rightarrow> int \<Rightarrow> 'a list" where
  "slice_to xs k =
     (if 0 \<le> k then take (nat k) xs else take (length xs - nat (- k)) xs)"

section \<open>The chunker\<close>

text \<open>
  \<^verbatim>\<open>VectorRAGTool._split_document\<close>. The loop over the paragraphs carries the chunks
  completed so far and the running buffer \<open>current_chunk\<close>.
\<close>

definition max_chunk_size :: nat where
  "max_chunk_size = 500"

fun split_loop :: "string list \<Rightarrow> string list \<Rightarrow> string \<Rightarrow> string list \<times> string" where
  "split_loop [] chunks current_chunk = (chunks, current_chunk)"
| "split_loop (p # ps) chunks current_chunk =
     (let paragraph = strip p
      in if paragraph = [] then split_loop ps chunks current_chunk
         else if length current_chunk + length paragraph > max_chunk_size \<and> current_chunk \<noteq> []
         then split_loop ps (chunks @ [strip current_chunk]) paragraph
         else if current_chunk \<noteq> []
         then split_loop ps chunks (current_chunk @ [newline, newline] @ paragraph)
         else split_loop ps chunks paragraph)"

definition split_document :: "string \<Rightarrow> string list" where
  "split_document text =
     (let paragraphs = split_sep text [newline, newline];
          (chunks, current_chunk) = split_loop paragraphs [] [];
          chunks = (if strip current_chunk \<noteq> [] then chunks @ [strip current_chunk] else chunks)
      in if chunks = [] \<and> strip text \<noteq> [] then [take max_chunk_size text] else chunks)"

section \<open>Documents, files and results\<close>

text \<open>
  A row of the \<^verbatim>\<open>documents\<close> table, as \<^verbatim>\<open>SELECT id, module, path, tags\<close> returns it.
  The code guards \<^verbatim>\<open>path\<close> and \<^verbatim>\<open>tags\<close> against NULL (\<^verbatim>\<open>if path and ...\<close>,
  \<^verbatim>\<open>row["tags"] or ""\<close>), so both are optional.
\<close>

record row =
  row_id :: int
  row_module :: string
  row_path :: "string option"
  row_tags :: "string option"

datatype error =
  DatabaseError | OSError | BackendError | TypeError | KeyError | IndexError | AttributeError

text \<open>
  \<^verbatim>\<open>database.query\<close> (\<^verbatim>\<open>src/database.py\<close>) executes the statement and returns the rows;
  it has a \<^verbatim>\<open>finally\<close> but no \<^verbatim>\<open>except\<close>, so a failing connection or statement raises.
\<close>

datatype database = Documents "row list" | Unavailable

fun database_query :: "database \<Rightarrow> error + row list" where
  "database_query (Documents rows) = Inr rows"
| "database_query Unavailable = Inl DatabaseError"

text \<open>
  The file system, as far as \<^verbatim>\<open>os.path.isfile\<close> and \<^verbatim>\<open>open(...).read()\<close> see it: at a
  path there is no regular file, a file that cannot be read, or a file with its text.
\<close>

datatype disk_file = Missing | Unreadable | Content string

type_synonym filesystem = "string \<Rightarrow> disk_file"

definition isfile :: "filesystem \<Rightarrow> string \<Rightarrow> bool" where
  "isfile fs p \<longleftrightarrow> fs p \<noteq> Missing"

definition open_read :: "filesystem \<Rightarrow> string \<Rightarrow> error + string" where
  "open_read fs p = (case fs p of Content t \<Rightarrow> Inr t | _ \<Rightarrow> Inl OSError)"

text \<open>
  \<^verbatim>\<open>text = ""; if path and os.path.isfile(path): text = f.read()\<close>. The result is
  \<open>Inl\<close> when the read raises; what the caller does then differs between the two
  call sites.
\<close>

definition read_text :: "filesystem \<Rightarrow> string option \<Rightarrow> error + string" where
  "read_text fs path =
     (case path of
        None \<Rightarrow> Inr []
      | Some p \<Rightarrow> if p \<noteq> [] \<and> isfile fs p then open_read fs p else Inr [])"

text \<open>Truth value of an \<^verbatim>\<open>Optional[str]\<close>, and \<^verbatim>\<open>x or ""\<close>.\<close>

fun truthy :: "string option \<Rightarrow> bool" where
  "truthy None = False"
| "truthy (Some s) = (s \<noteq> [])"

fun or_empty :: "string option \<Rightarrow> string" where
  "or_empty None = []"
| "or_empty (Some s) = s"

text \<open>\<^verbatim>\<open>{t.strip().lower() for t in s.split(",") if t.strip()}\<close>\<close>

definition tag_set :: "string \<Rightarrow> string set" where
  "tag_set s = set (map (\<lambda>t. lower (strip t)) (filter (\<lambda>t. strip t \<noteq> []) (split_sep s '','')))"

text \<open>\<^verbatim>\<open>set(s.lower().split())\<close>\<close>

definition word_set :: "string \<Rightarrow> string set" where
  "word_set s = set (split_ws (lower s))"

text \<open>
  A result dictionary. Scores are Python floats; they are modelled by the real numbers
  they stand for. (On the fallback path the float is the correctly rounded quotient of
  two word counts; rounding is monotone and maps \<open>[0, 1]\<close> into itself.)
\<close>

record result =
  res_id :: int
  res_module :: string
  res_tags :: "string option"
  res_score :: real
  res_excerpt :: string
  res_path :: "string option"

text \<open>\<^verbatim>\<open>text[:200] + "..." if len(text) > 200 else text\<close>\<close>

definition excerpt :: "string \<Rightarrow> string" where
  "excerpt text = (if length text > 200 then take 200 text @ ''...'' else text)"

section \<open>The fallback matcher\<close>

text \<open>
  \<^verbatim>\<open>VectorRAGTool._fallback_search\<close>. One iteration of the loop over the rows either
  appends a result to \<open>results\<close> or leaves it as it is (\<^verbatim>\<open>continue\<close>). The
  parameter \<^verbatim>\<open>module\<close> is written \<open>module_arg\<close>.
\<close>

definition fallback_step ::
  "filesystem \<Rightarrow> string set \<Rightarrow> string option \<Rightarrow> string option \<Rightarrow> row \<Rightarrow> result list \<Rightarrow> result list"
where
  "fallback_step fs query_words module_arg tags row results =
     (if truthy module_arg \<and> Some (row_module row) \<noteq> module_arg then results
      else if truthy tags \<and> \<not> tag_set (or_empty tags) \<subseteq> tag_set (or_empty (row_tags row))
      then results
      else case read_text fs (row_path row) of
        Inl e \<Rightarrow> results
      | Inr text \<Rightarrow>
          if text = [] then results
          else let doc_words = word_set text;
                   overlap = card (query_words \<inter> doc_words);
                   total = card (query_words \<union> doc_words);
                   score = (if total > 0 then real overlap / real total else 0)
               in if score > 0
                  then results @
                    [\<lparr>res_id = row_id row, res_module = row_module row, res_tags = row_tags row,
                      res_score = score, res_excerpt = excerpt text, res_path = row_path row\<rparr>]
                  else results)"

fun fallback_loop ::
  "filesystem \<Rightarrow> string set \<Rightarrow> string option \<Rightarrow> string option \<Rightarrow> row list \<Rightarrow> result list \<Rightarrow> result list"
where
  "fallback_loop fs query_words module_arg tags [] results = results"
| "fallback_loop fs query_words module_arg tags (row # rows) results =
     fallback_loop fs query_words module_arg tags rows
       (fallback_step fs query_words module_arg tags row results)"

text \<open>
  \<^verbatim>\<open>results.sort(key=lambda x: x["score"], reverse=True)\<close>: Python's sort is stable, also
  with \<^verbatim>\<open>reverse=True\<close> (results of equal score keep their order), so it is the stable
  sort by decreasing score.
\<close>

definition sort_by_score :: "result list \<Rightarrow> result list" where
  "sort_by_score results = sort_key (\<lambda>x. - res_score x) results"

definition fallback_search ::
  "database \<Rightarrow> filesystem \<Rightarrow> string \<Rightarrow> int \<Rightarrow> string option \<Rightarrow> string option \<Rightarrow> error + result list"
where
  "fallback_search db fs query k module_arg tags =
     (let query_words = word_set query
      in case database_query db of
           Inl e \<Rightarrow> Inl e
         | Inr rows \<Rightarrow>
             Inr (slice_to (sort_by_score (fallback_loop fs query_words module_arg tags rows [])) k))"

section \<open>The similarity index\<close>

text \<open>
  The metadata dictionary of a stored chunk. A field is \<open>None\<close> when the key is absent,
  in which case \<^verbatim>\<open>metadata["key"]\<close> raises KeyError and \<^verbatim>\<open>metadata.get("tags", "")\<close>
  gives the default.
\<close>

record metadata =
  md_doc_id :: "int option"
  md_module :: "string option"
  md_path :: "string option"
  md_tags :: "string option"
  md_chunk_index :: "nat option"

text \<open>
  What \<^verbatim>\<open>collection.query\<close> returns: under each of the three keys a list with one inner
  list per query text, or \<open>None\<close>. A neighbour's document or metadata may be \<open>None\<close>.
\<close>

record query_result =
  documents :: "string option list list option"
  metadatas :: "metadata option list list option"
  distances :: "real list list option"

text \<open>
  One entry handed to \<^verbatim>\<open>collection.add\<close>: the three parallel lists \<^verbatim>\<open>documents\<close>,
  \<^verbatim>\<open>metadatas\<close> and \<^verbatim>\<open>ids\<close> of the source are kept as one list of entries. The key
  \<^verbatim>\<open>f"{doc_id}_{i}"\<close> is kept as the pair it is formatted from.
\<close>

record entry =
  entry_id :: "int \<times> nat"
  entry_document :: string
  entry_metadata :: metadata

text \<open>
  The index store (ChromaDB) is not part of the repository. Its three operations used
  by the code are parameters: each may raise, \<^verbatim>\<open>count\<close> returns a natural number,
  \<^verbatim>\<open>add\<close> returns the updated collection, and \<^verbatim>\<open>query\<close> takes the query texts,
  \<^verbatim>\<open>n_results\<close> and the \<^verbatim>\<open>where\<close> dictionary (or \<open>None\<close>).
\<close>

record 'c backend =
  col_count :: "'c \<Rightarrow> error + nat"
  col_add :: "'c \<Rightarrow> entry list \<Rightarrow> error + 'c"
  col_query :: "'c \<Rightarrow> string list \<Rightarrow> int \<Rightarrow> (string \<times> string) list option \<Rightarrow> error + query_result"

datatype embedder = SentenceTransformer string

text \<open>
  The fields of a \<^verbatim>\<open>VectorRAGTool\<close> that the modelled methods read. \<open>add_calls\<close> is
  the trace of the batches handed to \<^verbatim>\<open>collection.add\<close> so far, oldest first, whether
  the call succeeded or not.
\<close>

record 'c tool =
  model :: "embedder option"
  collection :: "'c option"
  add_calls :: "entry list list"

section \<open>Building the index\<close>

text \<open>
  \<^verbatim>\<open>VectorRAGTool._load_all_documents\<close>. The entries contributed by one row: none when the
  file cannot be read or its text is blank, else one per chunk.
\<close>

definition row_entries :: "filesystem \<Rightarrow> row \<Rightarrow> entry list" where
  "row_entries fs row =
     (case read_text fs (row_path row) of
        Inl e \<Rightarrow> []
      | Inr text \<Rightarrow>
          if strip text = [] then []
          else map (\<lambda>(i, chunk).
                 \<lparr>entry_id = (row_id row, i), entry_document = chunk,
                  entry_metadata =
                    \<lparr>md_doc_id = Some (row_id row), md_module = Some (row_module row),
                     md_path = row_path row, md_tags = Some (or_empty (row_tags row)),
                     md_chunk_index = Some i\<rparr>\<rparr>)
               (enumerate 0 (split_document text)))"

text \<open>\<^verbatim>\<open>for i in range(0, len(documents), batch_size): documents[i:i+batch_size]\<close>\<close>

function batches :: "nat \<Rightarrow> 'a list \<Rightarrow> 'a list list" where
  "batches batch_size xs =
     (if batch_size = 0 \<or> xs = [] then []
      else take batch_size xs # batches batch_size (drop batch_size xs))"
  by pat_completeness auto
termination
  by (relation "measure (\<lambda>(batch_size, xs). length xs)") auto

text \<open>A batch that fails to be added is reported and skipped; the loop goes on.\<close>

fun add_batches :: "'c backend \<Rightarrow> entry list list \<Rightarrow> 'c \<Rightarrow> 'c" where
  "add_batches B [] c = c"
| "add_batches B (batch # rest) c =
     (case col_add B c batch of
        Inl e \<Rightarrow> add_batches B rest c
      | Inr c' \<Rightarrow> add_batches B rest c')"

definition load_all_documents ::
  "'c backend \<Rightarrow> database \<Rightarrow> filesystem \<Rightarrow> 'c tool \<Rightarrow> error + 'c tool"
where
  "load_all_documents B db fs self =
     (case (model self, collection self) of
        (Some m, Some c) \<Rightarrow>
          (case database_query db of
             Inl e \<Rightarrow> Inl e
           | Inr rows \<Rightarrow>
               let entries = concat (map (row_entries fs) rows)
               in if entries \<noteq> []
                  then Inr (self\<lparr>collection := Some (add_batches B (batches 100 entries) c),
                                  add_calls := add_calls self @ batches 100 entries\<rparr>)
                  else Inr self)
      | _ \<Rightarrow> Inr self)"

text \<open>
  \<^verbatim>\<open>VectorRAGTool._load_documents_if_needed\<close>: the bare \<^verbatim>\<open>except: pass\<close> around the
  count sends a failing \<^verbatim>\<open>count()\<close> on to the load.
\<close>

definition load_documents_if_needed ::
  "'c backend \<Rightarrow> database \<Rightarrow> filesystem \<Rightarrow> 'c tool \<Rightarrow> error + 'c tool"
where
  "load_documents_if_needed B db fs self =
     (case collection self of
        None \<Rightarrow> Inr self
      | Some c \<Rightarrow>
          (case col_count B c of
             Inr count \<Rightarrow> if count > 0 then Inr self else load_all_documents B db fs self
           | Inl e \<Rightarrow> load_all_documents B db fs self))"

section \<open>Searching\<close>

text \<open>\<^verbatim>\<open>xs[0]\<close> where \<open>xs\<close> may be \<open>None\<close> (TypeError) or empty (IndexError).\<close>

fun first_of :: "'a list option \<Rightarrow> error + 'a" where
  "first_of None = Inl TypeError"
| "first_of (Some []) = Inl IndexError"
| "first_of (Some (x # xs)) = Inr x"

text \<open>\<^verbatim>\<open>d["key"]\<close> on a dictionary field that may be absent.\<close>

fun key_of :: "'a option \<Rightarrow> error + 'a" where
  "key_of None = Inl KeyError"
| "key_of (Some v) = Inr v"

text \<open>Subscripting or measuring a value that may be \<open>None\<close>.\<close>

fun subscriptable :: "'a option \<Rightarrow> error + 'a" where
  "subscriptable None = Inl TypeError"
| "subscriptable (Some v) = Inr v"

text \<open>Sequencing: the first exception ends the computation.\<close>

fun and_then :: "error + 'a \<Rightarrow> ('a \<Rightarrow> error + 'b) \<Rightarrow> error + 'b" where
  "and_then (Inl e) f = Inl e"
| "and_then (Inr v) f = f v"

text \<open>
  The tag filter of the similarity path on one neighbour: \<open>Inr True\<close> when the
  neighbour is kept. \<^verbatim>\<open>metadata.get\<close> on a \<open>None\<close> metadata raises AttributeError.
\<close>

definition tag_filter :: "string option \<Rightarrow> metadata option \<Rightarrow> error + bool" where
  "tag_filter tags metadata =
     (if truthy tags
      then (case metadata of
              None \<Rightarrow> Inl AttributeError
            | Some m \<Rightarrow> Inr (tag_set (or_empty tags) \<subseteq> tag_set (or_empty (md_tags m))))
      else Inr True)"

text \<open>
  The result dictionary built for a neighbour that passed the filter; the fields are
  evaluated in the order of the dictionary display, and the first that raises decides.
\<close>

definition make_result :: "string option \<Rightarrow> metadata option \<Rightarrow> real \<Rightarrow> error + result" where
  "make_result doc metadata distance =
     (let score = max 0 (1 - distance)
      in and_then (subscriptable metadata) (\<lambda>m.
         and_then (key_of (md_doc_id m)) (\<lambda>i.
         and_then (key_of (md_module m)) (\<lambda>mo.
         and_then (key_of (md_tags m)) (\<lambda>tg.
         and_then (subscriptable doc) (\<lambda>d.
         and_then (key_of (md_path m)) (\<lambda>p.
           Inr \<lparr>res_id = i, res_module = mo, res_tags = Some tg, res_score = score,
                res_excerpt = excerpt d, res_path = Some p\<rparr>)))))))"

text \<open>
  The loop over the zipped neighbours, with \<open>processed_results\<close> as accumulator: a
  neighbour failing the filter is skipped, a result is appended, and only then the
  length is compared with \<open>k\<close>.
\<close>

fun process_results ::
  "int \<Rightarrow> string option \<Rightarrow> (string option \<times> metadata option \<times> real) list \<Rightarrow> result list
     \<Rightarrow> error + result list"
where
  "process_results k tags [] processed_results = Inr processed_results"
| "process_results k tags ((doc, metadata, distance) # rest) processed_results =
     (case tag_filter tags metadata of
        Inl e \<Rightarrow> Inl e
      | Inr False \<Rightarrow> process_results k tags rest processed_results
      | Inr True \<Rightarrow>
          (case make_result doc metadata distance of
             Inl e \<Rightarrow> Inl e
           | Inr r \<Rightarrow>
               if int (length (processed_results @ [r])) \<ge> k
               then Inr (processed_results @ [r])
               else process_results k tags rest (processed_results @ [r])))"

text \<open>
  The body of the \<^verbatim>\<open>try\<close> block of \<^verbatim>\<open>VectorRAGTool.search\<close>; \<open>Inl\<close> is an exception
  raised inside it.
\<close>

definition vector_search ::
  "'c backend \<Rightarrow> 'c \<Rightarrow> string \<Rightarrow> int \<Rightarrow> string option \<Rightarrow> string option \<Rightarrow> error + result list"
where
  "vector_search B c query k module_arg tags =
     (let where_conditions = (if truthy module_arg then [(''module'', or_empty module_arg)] else [])
      in case col_query B c [query] (min (k * 2) 20)
                (if where_conditions \<noteq> [] then Some where_conditions else None) of
           Inl e \<Rightarrow> Inl e
         | Inr results \<Rightarrow>
             (case documents results of
                None \<Rightarrow> Inr []
              | Some [] \<Rightarrow> Inr []
              | Some (docs # _) \<Rightarrow>
                  if docs = [] then Inr []
                  else and_then (first_of (metadatas results)) (\<lambda>metas.
                       and_then (first_of (distances results)) (\<lambda>dists.
                         process_results k tags (zip docs (zip metas dists)) []))))"

text \<open>
  \<^verbatim>\<open>VectorRAGTool.search\<close>: the fallback matcher when the model or the collection is
  missing, and when the \<^verbatim>\<open>try\<close> block raises.
\<close>

definition search ::
  "'c backend \<Rightarrow> database \<Rightarrow> filesystem \<Rightarrow> 'c tool \<Rightarrow> string \<Rightarrow> int \<Rightarrow> string option
     \<Rightarrow> string option \<Rightarrow> error + result list"
where
  "search B db fs self query k module_arg tags =
     (case (model self, collection self) of
        (Some m, Some c) \<Rightarrow>
          (case vector_search B c query k module_arg tags of
             Inl e \<Rightarrow> fallback_search db fs query k module_arg tags
           | Inr processed_results \<Rightarrow> Inr processed_results)
      | _ \<Rightarrow> fallback_search db fs query k module_arg tags)"

section \<open>The fallback matcher as the specification words it\<close>

text \<open>
  Jaccard similarity of two word sets, \<open>|A \<inter> B| / |A \<union> B|\<close>; two empty sets have
  nothing in common and score zero.
\<close>

definition jaccard :: "'a set \<Rightarrow> 'a set \<Rightarrow> real" where
  "jaccard A B = (if A \<union> B = {} then 0 else real (card (A \<inter> B)) / real (card (A \<union> B)))"

text \<open>Module equality and tag superset, each only when the filter is given.\<close>

definition matches_filters :: "string option \<Rightarrow> string option \<Rightarrow> row \<Rightarrow> bool" where
  "matches_filters module_arg tags row \<longleftrightarrow>
     (truthy module_arg \<longrightarrow> Some (row_module row) = module_arg) \<and>
     (truthy tags \<longrightarrow> tag_set (or_empty tags) \<subseteq> tag_set (or_empty (row_tags row)))"

text \<open>The content of a document's file; a document without a readable file has none.\<close>

definition file_content :: "filesystem \<Rightarrow> row \<Rightarrow> string" where
  "file_content fs row = (case read_text fs (row_path row) of Inl e \<Rightarrow> [] | Inr text \<Rightarrow> text)"

definition scored :: "filesystem \<Rightarrow> string \<Rightarrow> row \<Rightarrow> result" where
  "scored fs query row =
     \<lparr>res_id = row_id row, res_module = row_module row, res_tags = row_tags row,
      res_score = jaccard (word_set query) (word_set (file_content fs row)),
      res_excerpt = excerpt (file_content fs row), res_path = row_path row\<rparr>"

text \<open>
  Score every document that passes the filters, drop the scores equal to zero, sort by
  descending score, keep the top \<open>k\<close>.
\<close>

definition fallback_spec ::
  "row list \<Rightarrow> filesystem \<Rightarrow> string \<Rightarrow> nat \<Rightarrow> string option \<Rightarrow> string option \<Rightarrow> result list"
where
  "fallback_spec rows fs query k module_arg tags =
     take k (sort_key (\<lambda>r. - res_score r)
       (filter (\<lambda>r. res_score r \<noteq> 0)
         (map (scored fs query) (filter (matches_filters module_arg tags) rows))))"

section \<open>Auxiliary notions and example data\<close>

text \<open>
  The non-empty stripped paragraphs of a text, in order, and \<^verbatim>\<open>"\n\n".join\<close> of a list
  of paragraphs.
\<close>

definition paragraphs :: "string \<Rightarrow> string list" where
  "paragraphs source =
     filter (\<lambda>p. p \<noteq> []) (map strip (split_sep source [newline, newline]))"

fun join_paragraphs :: "string list \<Rightarrow> string" where
  "join_paragraphs [] = []"
| "join_paragraphs [p] = p"
| "join_paragraphs (p # q # ps) = p @ [newline, newline] @ join_paragraphs (q # ps)"

text \<open>A string that is not empty and neither starts nor ends with whitespace.\<close>

definition trimmed :: "string \<Rightarrow> bool" where
  "trimmed s \<longleftrightarrow> s \<noteq> [] \<and> \<not> is_space (hd s) \<and> \<not> is_space (last s)"

text \<open>
  The invariant of the chunker's loop, on the groups of paragraphs behind the completed
  chunks \<open>gs\<close> and behind the running buffer \<open>g\<close>.
\<close>

definition loop_inv :: "string list list \<Rightarrow> string list \<Rightarrow> bool" where
  "loop_inv gs g \<longleftrightarrow>
     [] \<notin> set gs \<and> (\<forall>p\<in>set g. trimmed p) \<and>
     (\<forall>h\<in>set (g # gs). 1 < length h \<longrightarrow> sum_list (map length h) \<le> max_chunk_size)"

text \<open>The neighbours that the tag filter of the similarity path keeps.\<close>

definition passes_tag_filter ::
  "string option \<Rightarrow> string option \<times> metadata option \<times> real \<Rightarrow> bool"
where
  "passes_tag_filter tags n \<longleftrightarrow> tag_filter tags (fst (snd n)) = Inr True"

text \<open>
  An index store for the examples: the collection is its number of entries, and every
  query gets the same prepared answer.
\<close>

definition stub_backend :: "(error + query_result) \<Rightarrow> nat backend" where
  "stub_backend answer =
     \<lparr>col_count = (\<lambda>n. Inr n),
      col_add = (\<lambda>n batch. Inr (n + length batch)),
      col_query = (\<lambda>n texts n_results where_arg. answer)\<rparr>"

definition example_rows :: "row list" where
  "example_rows =
     [\<lparr>row_id = 1, row_module = ''finance'', row_path = Some ''refunds.txt'',
       row_tags = Some ''Policy, Finance''\<rparr>,
      \<lparr>row_id = 2, row_module = ''inventory'', row_path = Some ''stock.txt'',
       row_tags = Some ''contracts''\<rparr>,
      \<lparr>row_id = 3, row_module = ''sales'', row_path = Some ''gone.txt'', row_tags = None\<rparr>]"

definition example_fs :: filesystem where
  "example_fs p =
     (if p = ''refunds.txt'' then Content ''Refunds are processed within 14 days''
      else if p = ''stock.txt'' then Content ''stock refunds''
      else Missing)"

definition example_tool :: "nat tool" where
  "example_tool =
     \<lparr>model = Some (SentenceTransformer ''all-MiniLM-L6-v2''), collection = Some 3,
      add_calls = []\<rparr>"

definition example_metadata :: metadata where
  "example_metadata =
     \<lparr>md_doc_id = Some 1, md_module = Some ''finance'', md_path = Some ''refunds.txt'',
      md_tags = Some ''Policy, Finance'', md_chunk_index = Some 0\<rparr>"

text \<open>The two results that the example documents give for the query \<open>refunds policy\<close>.\<close>

definition refunds_result :: result where
  "refunds_result =
     \<lparr>res_id = 1, res_module = ''finance'', res_tags = Some ''Policy, Finance'',
      res_score = 1 / 7, res_excerpt = ''Refunds are processed within 14 days'',
      res_path = Some ''refunds.txt''\<rparr>"

definition stock_result :: result where
  "stock_result =
     \<lparr>res_id = 2, res_module = ''inventory'', res_tags = Some ''contracts'',
      res_score = 1 / 3, res_excerpt = ''stock refunds'', res_path = Some ''stock.txt''\<rparr>"

definition other_fs :: filesystem where
  "other_fs p = (if p = ''notes.txt'' then Content ''refunds policy'' else example_fs p)"

text \<open>Prepared answers of the index store.\<close>

definition stock_metadata :: metadata where
  "stock_metadata =
     \<lparr>md_doc_id = Some 2, md_module = Some ''inventory'', md_path = Some ''stock.txt'',
      md_tags = Some ''contracts'', md_chunk_index = Some 0\<rparr>"

definition stock_answer :: query_result where
  "stock_answer =
     \<lparr>documents = Some [[Some ''stock refunds'']],
      metadatas = Some [[Some stock_metadata]],
      distances = Some [[2 / 3]]\<rparr>"

text \<open>The second neighbour has no metadata.\<close>

definition broken_answer :: query_result where
  "broken_answer =
     \<lparr>documents = Some [[Some ''stock refunds'', Some ''stray'']],
      metadatas = Some [[Some stock_metadata, None]],
      distances = Some [[2 / 3, 3 / 4]]\<rparr>"

definition tagged_neighbours :: "(string option \<times> metadata option \<times> real) list" where
  "tagged_neighbours =
     [(Some ''stock refunds'', Some stock_metadata, 2 / 3),
      (Some ''Refunds are processed within 14 days'', Some example_metadata, 6 / 7)]"

definition tagged_answer :: query_result where
  "tagged_answer =
     \<lparr>documents = Some [map fst tagged_neighbours],
      metadatas = Some [map (fst \<circ> snd) tagged_neighbours],
      distances = Some [map (snd \<circ> snd) tagged_neighbours]\<rparr>"

text \<open>A neighbour at a slightly negative distance.\<close>

definition near_answer :: query_result where
  "near_answer =
     \<lparr>documents = Some [[Some ''Refunds are processed within 14 days'']],
      metadatas = Some [[Some example_metadata]],
      distances = Some [[- (1 / 8388608)]]\<rparr>"

section \<open>Properties of the string operations\<close>

lemma length_strip: "length (strip s) \<le> length s"
  unfolding strip_def lstrip_def rstrip_def
  by (metis dual_order.trans length_dropWhile_le length_rev)

lemma rstrip_Cons: "\<not> is_space x \<Longrightarrow> rstrip (x # t) = x # rstrip t"
  by (simp add: rstrip_def dropWhile_append)

lemma rstrip_idem: "rstrip (rstrip s) = rstrip s"
  by (simp add: rstrip_def)

lemma lstrip_cases: "lstrip s = [] \<or> (\<exists>x t. lstrip s = x # t \<and> \<not> is_space x)"
  unfolding lstrip_def
  by (metis hd_dropWhile list.exhaust list.sel(1))

lemma strip_idem: "strip (strip s) = strip s"
proof -
  consider "lstrip s = []" | x t where "lstrip s = x # t" "\<not> is_space x"
    using lstrip_cases by blast
  then show ?thesis
  proof cases
    case 1
    then have "strip s = []" by (simp add: strip_def rstrip_def)
    moreover have "strip [] = []" by (simp add: strip_def rstrip_def lstrip_def)
    ultimately show ?thesis by simp
  next
    case 2
    then have "strip s = x # rstrip t" by (simp add: strip_def rstrip_Cons)
    moreover have "lstrip (x # rstrip t) = x # rstrip t"
      using 2 by (simp add: lstrip_def)
    ultimately show ?thesis
      using 2 by (simp add: strip_def rstrip_Cons rstrip_idem)
  qed
qed

lemma strip_eq_Nil_iff: "strip s = [] \<longleftrightarrow> (\<forall>c\<in>set s. is_space c)"
proof
  assume a: "strip s = []"
  show "\<forall>c\<in>set s. is_space c"
  proof (rule ccontr)
    assume "\<not> (\<forall>c\<in>set s. is_space c)"
    then have "lstrip s \<noteq> []" by (simp add: lstrip_def)
    then obtain x t where "lstrip s = x # t" "\<not> is_space x"
      using lstrip_cases by blast
    then have "strip s = x # rstrip t" by (simp add: strip_def rstrip_Cons)
    with a show False by simp
  qed
next
  assume "\<forall>c\<in>set s. is_space c"
  then have "lstrip s = []" by (simp add: lstrip_def)
  then show "strip s = []" by (simp add: strip_def rstrip_def)
qed

lemma split_from_chars:
  "p \<in> set (split_from sep cur s) \<Longrightarrow> set p \<subseteq> set cur \<union> set s"
proof (induction sep cur s rule: split_from.induct)
  case (1 sep cur)
  then show ?case by simp
next
  case (2 sep cur c cs)
  show ?case
  proof (cases "sep \<noteq> [] \<and> prefix sep (c # cs)")
    case True
    with 2 have "p = cur \<or> p \<in> set (split_from sep [] (drop (length sep) (c # cs)))"
      by simp
    then show ?thesis
    proof
      assume "p = cur" then show ?thesis by auto
    next
      assume "p \<in> set (split_from sep [] (drop (length sep) (c # cs)))"
      then have "set p \<subseteq> set [] \<union> set (drop (length sep) (c # cs))"
        using 2(1) True by blast
      moreover have "set (drop (length sep) (c # cs)) \<subseteq> set (c # cs)"
        by (rule set_drop_subset)
      ultimately show ?thesis by auto
    qed
  next
    case False
    with 2 have "p \<in> set (split_from sep (cur @ [c]) cs)" by auto
    then have "set p \<subseteq> set (cur @ [c]) \<union> set cs" using 2(2) False by blast
    then show ?thesis by auto
  qed
qed

section \<open>Properties of the chunker\<close>

lemma split_loop_blank:
  "\<forall>p\<in>set ps. strip p = [] \<Longrightarrow> split_loop ps chunks cur = (chunks, cur)"
  by (induction ps arbitrary: chunks cur) (simp_all add: Let_def)

lemma strip_trimmed: "trimmed s \<Longrightarrow> strip s = s"
proof -
  assume t: "trimmed s"
  then obtain x xs where s: "s = x # xs" and x: "\<not> is_space x"
    by (cases s) (auto simp: trimmed_def)
  have l: "lstrip s = s" using s x by (simp add: lstrip_def)
  have "rev s \<noteq> []" "\<not> is_space (hd (rev s))"
    using t by (auto simp: trimmed_def hd_rev)
  then have "dropWhile is_space (rev s) = rev s"
    by (cases "rev s") auto
  then show ?thesis using l by (simp add: strip_def rstrip_def)
qed

lemma trimmed_strip: "strip p \<noteq> [] \<Longrightarrow> trimmed (strip p)"
proof -
  assume ne: "strip p \<noteq> []"
  have "lstrip p \<noteq> []" using ne by (auto simp: strip_def rstrip_def)
  then obtain x t where l: "lstrip p = x # t" and x: "\<not> is_space x"
    using lstrip_cases by blast
  then have h: "strip p = x # rstrip t" by (simp add: strip_def rstrip_Cons)
  let ?d = "dropWhile is_space (rev (lstrip p))"
  have d: "strip p = rev ?d" by (simp add: strip_def rstrip_def)
  then have "?d \<noteq> []" using ne by simp
  then have "\<not> is_space (hd ?d)" by (rule hd_dropWhile)
  moreover have "last (strip p) = hd ?d" using d \<open>?d \<noteq> []\<close> by (simp add: last_rev)
  ultimately show ?thesis using h x ne by (simp add: trimmed_def)
qed

lemma trimmed_append:
  "trimmed a \<Longrightarrow> trimmed b \<Longrightarrow> trimmed (a @ [newline, newline] @ b)"
  by (auto simp: trimmed_def)

lemma join_paragraphs_snoc:
  "g \<noteq> [] \<Longrightarrow> join_paragraphs (g @ [p]) = join_paragraphs g @ [newline, newline] @ p"
  by (induction g rule: join_paragraphs.induct) auto

lemma trimmed_join: "g \<noteq> [] \<Longrightarrow> \<forall>p\<in>set g. trimmed p \<Longrightarrow> trimmed (join_paragraphs g)"
proof (induction g rule: rev_induct)
  case Nil
  then show ?case by simp
next
  case (snoc p g)
  show ?case
  proof (cases "g = []")
    case True
    then show ?thesis using snoc.prems by simp
  next
    case False
    then have "trimmed (join_paragraphs g)" using snoc by simp
    moreover have "trimmed p" using snoc.prems by simp
    ultimately have "trimmed (join_paragraphs g @ [newline, newline] @ p)"
      by (rule trimmed_append)
    then show ?thesis unfolding join_paragraphs_snoc [OF False] .
  qed
qed

lemma join_Nil_iff: "\<forall>p\<in>set g. trimmed p \<Longrightarrow> join_paragraphs g = [] \<longleftrightarrow> g = []"
  using trimmed_join [of g] by (auto simp: trimmed_def)

lemma sum_length_le_join: "sum_list (map length g) \<le> length (join_paragraphs g)"
  by (induction g rule: join_paragraphs.induct) auto

lemma split_loop_groups:
  "split_loop ps (map join_paragraphs gs) (join_paragraphs g) = (chunks', cur') \<Longrightarrow>
   loop_inv gs g \<Longrightarrow>
   \<exists>gs' g'. chunks' = map join_paragraphs gs' \<and> cur' = join_paragraphs g' \<and>
     concat gs' @ g' = concat gs @ g @ filter (\<lambda>p. p \<noteq> []) (map strip ps) \<and>
     loop_inv gs' g'"
proof (induction ps arbitrary: gs g)
  case Nil
  then show ?case by auto
next
  case (Cons p ps)
  let ?q = "strip p"
  let ?cur = "join_paragraphs g"
  have tg: "\<forall>p\<in>set g. trimmed p" using Cons.prems(2) by (simp add: loop_inv_def)
  have cur_ne: "?cur \<noteq> [] \<longleftrightarrow> g \<noteq> []" using join_Nil_iff [OF tg] by simp
  consider (blank) "?q = []"
    | (flush) "?q \<noteq> []" "length ?cur + length ?q > max_chunk_size" "g \<noteq> []"
    | (join) "?q \<noteq> []" "\<not> length ?cur + length ?q > max_chunk_size" "g \<noteq> []"
    | (start) "?q \<noteq> []" "g = []"
    by blast
  then show ?case
  proof cases
    case blank
    then have "split_loop ps (map join_paragraphs gs) ?cur = (chunks', cur')"
      using Cons.prems(1) by (simp add: Let_def)
    from Cons.IH [OF this Cons.prems(2)] show ?thesis using blank by simp
  next
    case flush
    have "strip ?cur = ?cur" using trimmed_join [OF flush(3) tg] by (rule strip_trimmed)
    then have "split_loop ps (map join_paragraphs (gs @ [g])) (join_paragraphs [?q])
                 = (chunks', cur')"
      using Cons.prems(1) flush cur_ne by (simp add: Let_def)
    moreover have "loop_inv (gs @ [g]) [?q]"
      using Cons.prems(2) flush(1,3) trimmed_strip [of p] by (auto simp: loop_inv_def)
    ultimately obtain gs' g' where "chunks' = map join_paragraphs gs'" "cur' = join_paragraphs g'"
      "concat gs' @ g' = concat (gs @ [g]) @ [?q] @ filter (\<lambda>p. p \<noteq> []) (map strip ps)"
      "loop_inv gs' g'"
      using Cons.IH by blast
    then show ?thesis using flush(1) by auto
  next
    case join
    have "split_loop ps (map join_paragraphs gs) (join_paragraphs (g @ [?q])) = (chunks', cur')"
      using Cons.prems(1) join cur_ne by (simp add: Let_def join_paragraphs_snoc)
    moreover have "sum_list (map length (g @ [?q])) \<le> max_chunk_size"
      using join(2) sum_length_le_join [of g] by simp
    then have "loop_inv gs (g @ [?q])"
      using Cons.prems(2) join(1) trimmed_strip [of p] by (auto simp: loop_inv_def)
    ultimately obtain gs' g' where "chunks' = map join_paragraphs gs'" "cur' = join_paragraphs g'"
      "concat gs' @ g' = concat gs @ (g @ [?q]) @ filter (\<lambda>p. p \<noteq> []) (map strip ps)"
      "loop_inv gs' g'"
      using Cons.IH by blast
    then show ?thesis using join(1) by auto
  next
    case start
    have "split_loop ps (map join_paragraphs gs) (join_paragraphs [?q]) = (chunks', cur')"
      using Cons.prems(1) start by (simp add: Let_def)
    moreover have "loop_inv gs [?q]"
      using Cons.prems(2) start(1) trimmed_strip [of p] by (auto simp: loop_inv_def)
    ultimately obtain gs' g' where "chunks' = map join_paragraphs gs'" "cur' = join_paragraphs g'"
      "concat gs' @ g' = concat gs @ [?q] @ filter (\<lambda>p. p \<noteq> []) (map strip ps)"
      "loop_inv gs' g'"
      using Cons.IH by blast
    then show ?thesis using start by auto
  qed
qed

lemma split_from_covers:
  "set cur \<union> set s \<subseteq> (\<Union>p\<in>set (split_from sep cur s). set p) \<union> set sep"
proof (induction sep cur s rule: split_from.induct)
  case (1 sep cur)
  then show ?case by simp
next
  case (2 sep cur c cs)
  show ?case
  proof (cases "sep \<noteq> [] \<and> prefix sep (c # cs)")
    case True
    then have "c # cs = sep @ drop (length sep) (c # cs)"
      by (metis append_eq_conv_conj prefix_def)
    then have "set (c # cs) = set sep \<union> set (drop (length sep) (c # cs))"
      by (metis set_append)
    moreover have "set [] \<union> set (drop (length sep) (c # cs))
        \<subseteq> (\<Union>p\<in>set (split_from sep [] (drop (length sep) (c # cs))). set p) \<union> set sep"
      using 2(1) True by blast
    ultimately show ?thesis using True by auto
  next
    case False
    then have "set (cur @ [c]) \<union> set cs
        \<subseteq> (\<Union>p\<in>set (split_from sep (cur @ [c]) cs). set p) \<union> set sep"
      using 2(2) by blast
    then show ?thesis using False by auto
  qed
qed

lemma paragraphs_nonempty: "strip source \<noteq> [] \<Longrightarrow> paragraphs source \<noteq> []"
proof -
  assume "strip source \<noteq> []"
  then obtain x where x: "x \<in> set source" "\<not> is_space x"
    by (auto simp: strip_eq_Nil_iff)
  have "x \<notin> set [newline, newline]" using x(2) by (auto simp: is_space_def newline_def)
  then obtain p where p: "p \<in> set (split_sep source [newline, newline])" "x \<in> set p"
    using split_from_covers [of "[]" source "[newline, newline]"] x(1)
    unfolding split_sep_def by auto
  then have "strip p \<noteq> []" using x(2) by (auto simp: strip_eq_Nil_iff)
  then have "strip p \<in> set (paragraphs source)" using p(1) by (auto simp: paragraphs_def)
  then show ?thesis by auto
qed

section \<open>Slices and sequencing\<close>

lemma length_slice_to: "0 \<le> k \<Longrightarrow> int (length (slice_to xs k)) \<le> k"
  by (simp add: slice_to_def)

lemma set_slice_to: "set (slice_to xs k) \<subseteq> set xs"
  by (auto simp: slice_to_def dest: in_set_takeD)

lemma and_then_Inr: "and_then x f = Inr y \<Longrightarrow> \<exists>v. x = Inr v \<and> f v = Inr y"
  by (cases x) auto

section \<open>Properties of the fallback matcher\<close>

lemma word_set_Nil: "word_set [] = {}"
  by (simp add: word_set_def lower_def split_ws_def)

lemma finite_word_set: "finite (word_set s)"
  by (simp add: word_set_def)

lemma jaccard_code:
  assumes "finite A" "finite B"
  shows "(if card (A \<union> B) > 0 then real (card (A \<inter> B)) / real (card (A \<union> B)) else 0) = jaccard A B"
  using assms by (auto simp: jaccard_def)

lemma jaccard_nonneg: "0 \<le> jaccard A B"
  by (simp add: jaccard_def)

lemma jaccard_le_one: "finite A \<Longrightarrow> finite B \<Longrightarrow> jaccard A B \<le> 1"
proof -
  assume f: "finite A" "finite B"
  have "card (A \<inter> B) \<le> card (A \<union> B)"
    using f by (intro card_mono) auto
  then show ?thesis
    by (auto simp: jaccard_def divide_le_eq_1)
qed

lemma jaccard_empty: "jaccard A {} = 0"
  by (simp add: jaccard_def)

lemma fallback_step_spec:
  "fallback_step fs (word_set query) module_arg tags row results =
     results @ (if matches_filters module_arg tags row \<and> res_score (scored fs query row) \<noteq> 0
                then [scored fs query row] else [])"
proof (cases "matches_filters module_arg tags row")
  case False
  then show ?thesis
    by (auto simp: fallback_step_def matches_filters_def)
next
  case True
  then have guards: "(truthy module_arg \<and> Some (row_module row) \<noteq> module_arg) = False"
    "(truthy tags \<and> \<not> tag_set (or_empty tags) \<subseteq> tag_set (or_empty (row_tags row))) = False"
    by (auto simp: matches_filters_def)
  show ?thesis
  proof (cases "read_text fs (row_path row)")
    case (Inl e)
    then have "file_content fs row = []" by (simp add: file_content_def)
    then have "res_score (scored fs query row) = 0"
      by (simp add: scored_def word_set_Nil jaccard_empty)
    then show ?thesis unfolding fallback_step_def guards Inl by simp
  next
    case (Inr content)
    then have fc: "file_content fs row = content" by (simp add: file_content_def)
    show ?thesis
    proof (cases "content = []")
      case True
      then have "res_score (scored fs query row) = 0"
        using fc by (simp add: scored_def word_set_Nil jaccard_empty)
      then show ?thesis unfolding fallback_step_def guards Inr using True by simp
    next
      case False
      let ?s = "jaccard (word_set query) (word_set content)"
      have sc: "(if card (word_set query \<union> word_set content) > 0
                 then real (card (word_set query \<inter> word_set content))
                      / real (card (word_set query \<union> word_set content)) else 0) = ?s"
        by (rule jaccard_code) (rule finite_word_set)+
      have pos: "?s > 0 \<longleftrightarrow> ?s \<noteq> 0"
        using jaccard_nonneg [of "word_set query" "word_set content"] by linarith
      have "fallback_step fs (word_set query) module_arg tags row results =
              (if ?s > 0 then results @ [scored fs query row] else results)"
        unfolding fallback_step_def guards Inr
        using False fc sc by (simp add: Let_def scored_def)
      then show ?thesis using pos True fc by (simp add: scored_def)
    qed
  qed
qed

lemma fallback_loop_spec:
  "fallback_loop fs (word_set query) module_arg tags rows results =
     results @ filter (\<lambda>r. res_score r \<noteq> 0)
       (map (scored fs query) (filter (matches_filters module_arg tags) rows))"
  by (induction rows arbitrary: results) (simp_all add: fallback_step_spec)

lemma fallback_search_spec:
  "fallback_search (Documents rows) fs query k module_arg tags =
     Inr (slice_to (sort_key (\<lambda>r. - res_score r)
       (filter (\<lambda>r. res_score r \<noteq> 0)
         (map (scored fs query) (filter (matches_filters module_arg tags) rows)))) k)"
  by (simp add: fallback_search_def sort_by_score_def fallback_loop_spec)

lemma fallback_search_members:
  assumes "fallback_search db fs query k module_arg tags = Inr rs" "r \<in> set rs"
  shows "\<exists>row. matches_filters module_arg tags row \<and> r = scored fs query row \<and> res_score r \<noteq> 0"
proof -
  obtain rows where db: "db = Documents rows"
    using assms(1) by (cases db) (simp_all add: fallback_search_def)
  have "r \<in> set (sort_key (\<lambda>r. - res_score r)
       (filter (\<lambda>r. res_score r \<noteq> 0)
         (map (scored fs query) (filter (matches_filters module_arg tags) rows))))"
    using assms set_slice_to unfolding db fallback_search_spec by fastforce
  then show ?thesis by auto
qed

section \<open>Properties of the similarity path\<close>

lemma process_results_length:
  "0 < k \<Longrightarrow> int (length acc) < k \<Longrightarrow> process_results k tags ns acc = Inr rs \<Longrightarrow>
     int (length rs) \<le> k"
proof (induction ns arbitrary: acc)
  case Nil
  then show ?case by simp
next
  case (Cons n ns)
  obtain doc metadata distance where n: "n = (doc, metadata, distance)"
    by (cases n) auto
  show ?case
  proof (cases "tag_filter tags metadata")
    case (Inl e)
    then show ?thesis using Cons.prems n by simp
  next
    case (Inr keep)
    show ?thesis
    proof (cases keep)
      case False
      then show ?thesis using Cons Inr n by simp
    next
      case True
      show ?thesis
      proof (cases "make_result doc metadata distance")
        case (Inl e)
        then show ?thesis using Cons.prems n Inr True by simp
      next
        case r: (Inr r)
        show ?thesis
        proof (cases "int (length (acc @ [r])) \<ge> k")
          case full: True
          then have "rs = acc @ [r]" using Cons.prems n Inr True r by simp
          then show ?thesis using Cons.prems(2) by simp
        next
          case more: False
          then have "process_results k tags ns (acc @ [r]) = Inr rs"
            using Cons.prems n Inr True r by simp
          moreover have "int (length (acc @ [r])) < k" using more by simp
          ultimately show ?thesis using Cons.IH Cons.prems(1) by blast
        qed
      qed
    qed
  qed
qed

lemma process_results_all:
  assumes "process_results k tags ns acc = Inr rs"
    and "\<forall>r\<in>set acc. P r"
    and "\<And>doc metadata distance r. (doc, metadata, distance) \<in> set ns \<Longrightarrow>
           tag_filter tags metadata = Inr True \<Longrightarrow> make_result doc metadata distance = Inr r \<Longrightarrow> P r"
  shows "\<forall>r\<in>set rs. P r"
  using assms
proof (induction ns arbitrary: acc)
  case Nil
  then show ?case by simp
next
  case (Cons n ns)
  obtain doc metadata distance where n: "n = (doc, metadata, distance)"
    by (cases n) auto
  have rest: "P r" if "(doc, metadata, distance) \<in> set ns"
      "tag_filter tags metadata = Inr True" "make_result doc metadata distance = Inr r"
    for doc metadata distance r
    using that Cons.prems(3) [of doc metadata distance r] by simp
  show ?case
  proof (cases "tag_filter tags metadata")
    case (Inl e)
    then show ?thesis using Cons.prems n by simp
  next
    case (Inr keep)
    show ?thesis
    proof (cases keep)
      case False
      then have "process_results k tags ns acc = Inr rs" using Cons.prems(1) Inr n by simp
      then show ?thesis using Cons.IH Cons.prems(2) rest by blast
    next
      case True
      show ?thesis
      proof (cases "make_result doc metadata distance")
        case (Inl e)
        then show ?thesis using Cons.prems n Inr True by simp
      next
        case r: (Inr r)
        have Pr: "P r" using Cons.prems(3) [of doc metadata distance r] n Inr True r by simp
        then have acc': "\<forall>x\<in>set (acc @ [r]). P x" using Cons.prems(2) by simp
        show ?thesis
        proof (cases "int (length (acc @ [r])) \<ge> k")
          case full: True
          then have "rs = acc @ [r]" using Cons.prems(1) n Inr True r by simp
          then show ?thesis using acc' by simp
        next
          case more: False
          then have "process_results k tags ns (acc @ [r]) = Inr rs"
            using Cons.prems(1) n Inr True r by simp
          then show ?thesis using Cons.IH acc' rest by blast
        qed
      qed
    qed
  qed
qed

lemma process_results_nonpositive:
  "k \<le> 0 \<Longrightarrow> process_results k tags ns [] = Inr rs \<Longrightarrow>
     length rs \<le> 1 \<and> (length rs = 1 \<longleftrightarrow> (\<exists>n\<in>set ns. passes_tag_filter tags n))"
proof (induction ns)
  case Nil
  then show ?case by simp
next
  case (Cons n ns)
  obtain doc metadata distance where n: "n = (doc, metadata, distance)"
    by (cases n) auto
  show ?case
  proof (cases "tag_filter tags metadata")
    case (Inl e)
    then show ?thesis using Cons.prems n by simp
  next
    case (Inr keep)
    show ?thesis
    proof (cases keep)
      case False
      then have "process_results k tags ns [] = Inr rs" using Cons.prems Inr n by simp
      moreover have "\<not> passes_tag_filter tags n"
        using Inr False n by (simp add: passes_tag_filter_def)
      ultimately show ?thesis using Cons.IH Cons.prems(1) by simp
    next
      case True
      then have p: "passes_tag_filter tags n" using Inr n by (simp add: passes_tag_filter_def)
      show ?thesis
      proof (cases "make_result doc metadata distance")
        case (Inl e)
        then show ?thesis using Cons.prems n Inr True by simp
      next
        case r: (Inr r)
        then have "rs = [r]" using Cons.prems n Inr True by simp
        then show ?thesis using p by auto
      qed
    qed
  qed
qed

lemma vector_search_cases:
  assumes "vector_search B c query k module_arg tags = Inr rs"
  shows "rs = [] \<or> (\<exists>ns. process_results k tags ns [] = Inr rs)"
proof -
  let ?w = "if truthy module_arg then [(''module'', or_empty module_arg)] else []"
  let ?q = "col_query B c [query] (min (k * 2) 20) (if ?w \<noteq> [] then Some ?w else None)"
  obtain results where q: "?q = Inr results"
    using assms by (cases ?q) (simp_all add: vector_search_def Let_def)
  show ?thesis
  proof (cases "documents results")
    case None
    then show ?thesis using assms q by (simp add: vector_search_def Let_def)
  next
    case (Some dss)
    show ?thesis
    proof (cases dss)
      case Nil
      then show ?thesis using assms q Some by (simp add: vector_search_def Let_def)
    next
      case (Cons docs rest)
      show ?thesis
      proof (cases "docs = []")
        case True
        then show ?thesis using assms q Some Cons by (simp add: vector_search_def Let_def)
      next
        case False
        then have "and_then (first_of (metadatas results)) (\<lambda>metas.
                   and_then (first_of (distances results)) (\<lambda>dists.
                     process_results k tags (zip docs (zip metas dists)) [])) = Inr rs"
          using assms q Some Cons by (simp add: vector_search_def Let_def)
        then obtain metas dists where
          "process_results k tags (zip docs (zip metas dists)) [] = Inr rs"
          by (blast dest: and_then_Inr)
        then show ?thesis by blast
      qed
    qed
  qed
qed

lemma vector_search_length:
  assumes "0 < k" "vector_search B c query k module_arg tags = Inr rs"
  shows "int (length rs) \<le> k"
  using vector_search_cases [OF assms(2)] assms(1) process_results_length [of k "[]" tags _ rs]
  by auto

lemma fallback_search_length:
  assumes "0 \<le> k" "fallback_search db fs query k module_arg tags = Inr rs"
  shows "int (length rs) \<le> k"
proof -
  obtain rows where db: "db = Documents rows"
    using assms(2) by (cases db) (simp_all add: fallback_search_def)
  show ?thesis using assms length_slice_to [of k] unfolding db fallback_search_spec by auto
qed

lemma search_cases:
  "search B db fs self query k module_arg tags = Inr rs \<Longrightarrow>
     fallback_search db fs query k module_arg tags = Inr rs \<or>
     (\<exists>c. collection self = Some c \<and> vector_search B c query k module_arg tags = Inr rs)"
  by (auto simp: search_def split: option.splits sum.splits)

lemma key_of_Inr: "key_of x = Inr v \<Longrightarrow> x = Some v"
  by (cases x) auto

lemma make_result_tags:
  "make_result doc (Some m) distance = Inr r \<Longrightarrow> res_tags r = Some (or_empty (md_tags m))"
  by (auto simp: make_result_def Let_def dest!: and_then_Inr key_of_Inr)

lemma make_result_metadata: "make_result doc metadata distance = Inr r \<Longrightarrow> \<exists>m. metadata = Some m"
  by (cases metadata) (simp_all add: make_result_def)

lemma make_result_score:
  "make_result doc metadata distance = Inr r \<Longrightarrow> res_score r = max 0 (1 - distance)"
  by (auto simp: make_result_def Let_def dest!: and_then_Inr)

lemma tag_set_Nil: "tag_set [] = {}"
  by (simp add: tag_set_def split_sep_def strip_def lstrip_def rstrip_def)

lemma tags_subset_untruthy: "\<not> truthy (Some t) \<Longrightarrow> tag_set t \<subseteq> X"
  by (simp add: tag_set_Nil)

lemma vector_search_tags:
  assumes "vector_search B c query k module_arg (Some t) = Inr rs" "r \<in> set rs"
  shows "tag_set t \<subseteq> tag_set (or_empty (res_tags r))"
proof -
  from vector_search_cases [OF assms(1)] assms(2)
  obtain ns where ns: "process_results k (Some t) ns [] = Inr rs" by auto
  have "\<forall>r\<in>set rs. tag_set t \<subseteq> tag_set (or_empty (res_tags r))"
  proof (rule process_results_all [OF ns])
    show "\<forall>r\<in>set []. tag_set t \<subseteq> tag_set (or_empty (res_tags r))" by simp
  next
    fix doc metadata distance r
    assume keep: "tag_filter (Some t) metadata = Inr True"
      and mk: "make_result doc metadata distance = Inr r"
    obtain m where m: "metadata = Some m" using make_result_metadata [OF mk] by blast
    have rt: "res_tags r = Some (or_empty (md_tags m))"
      using mk m make_result_tags by blast
    show "tag_set t \<subseteq> tag_set (or_empty (res_tags r))"
    proof (cases "truthy (Some t)")
      case True
      then show ?thesis using keep m rt by (simp add: tag_filter_def)
    next
      case False
      then show ?thesis by (rule tags_subset_untruthy)
    qed
  qed
  then show ?thesis using assms(2) by blast
qed

lemma fallback_search_tags:
  assumes "fallback_search db fs query k module_arg (Some t) = Inr rs" "r \<in> set rs"
  shows "tag_set t \<subseteq> tag_set (or_empty (res_tags r))"
proof -
  obtain row where row: "matches_filters module_arg (Some t) row" "r = scored fs query row"
    using fallback_search_members [OF assms] by blast
  show ?thesis
  proof (cases "truthy (Some t)")
    case True
    then show ?thesis using row by (simp add: matches_filters_def scored_def)
  next
    case False
    then show ?thesis by (rule tags_subset_untruthy)
  qed
qed

section \<open>The claims\<close>

subsection \<open>Result count\<close>

text \<open>
  Claim C1. For a positive \<open>k\<close>, whatever \<^verbatim>\<open>search\<close> returns is a list of at most \<open>k\<close>
  results; the same holds for the similarity path and for the fallback path taken
  alone. When the query of the document table succeeds, \<^verbatim>\<open>search\<close> does return a list.
\<close>

theorem search_returns_at_most_k:
  assumes "0 < k"
  shows "(search B db fs self query k module_arg tags = Inr rs \<longrightarrow> int (length rs) \<le> k)
       \<and> (vector_search B c query k module_arg tags = Inr rs \<longrightarrow> int (length rs) \<le> k)
       \<and> (fallback_search db fs query k module_arg tags = Inr rs \<longrightarrow> int (length rs) \<le> k)
       \<and> (\<exists>rs'. search B (Documents rows) fs self query k module_arg tags = Inr rs')"
proof -
  have "\<exists>rs'. search B (Documents rows) fs self query k module_arg tags = Inr rs'"
    by (auto simp: search_def fallback_search_def split: option.splits sum.splits)
  then show ?thesis
    using assms search_cases [of B db fs self query k module_arg tags rs]
      vector_search_length [of k B _ query module_arg tags rs]
      fallback_search_length [of k db fs query module_arg tags rs]
    by auto
qed

theorem search_returns_at_most_k_witness:
  "0 < (1::int)
   \<and> search (stub_backend (Inr stock_answer)) (Documents example_rows) example_fs example_tool
        ''refunds policy'' 1 None None = Inr [stock_result]
   \<and> vector_search (stub_backend (Inr stock_answer)) 3 ''refunds policy'' 1 None None
        = Inr [stock_result]
   \<and> fallback_search (Documents example_rows) example_fs ''refunds policy'' 1 None None
        = Inr [stock_result]
   \<and> int (length [stock_result]) \<le> 1"
proof -
  have a: "search (stub_backend (Inr stock_answer)) (Documents example_rows) example_fs
             example_tool ''refunds policy'' 1 None None = Inr [stock_result]"
    by code_simp
  have b: "vector_search (stub_backend (Inr stock_answer)) 3 ''refunds policy'' 1 None None
             = Inr [stock_result]"
    by code_simp
  have c: "fallback_search (Documents example_rows) example_fs ''refunds policy'' 1 None None
             = Inr [stock_result]"
    by code_simp
  have k: "0 < (1::int)" by simp
  show ?thesis
    using a b c search_returns_at_most_k [OF k, of "stub_backend (Inr stock_answer)"
        "Documents example_rows" example_fs example_tool "''refunds policy''" None None
        "[stock_result]" 3 example_rows]
    by simp
qed

subsection \<open>Exceptions on the similarity path\<close>

text \<open>
  Claim C2, as stated, fails: when the index raises and the fallback matcher's own
  query of the document table raises as well, that second exception reaches the
  caller of \<^verbatim>\<open>search\<close>.
\<close>

theorem search_fallback_raises_counterexample:
  "vector_search (stub_backend (Inl BackendError)) 3 ''refunds policy'' 3 None None
     = Inl BackendError
   \<and> search (stub_backend (Inl BackendError)) Unavailable example_fs example_tool
        ''refunds policy'' 3 None None = Inl DatabaseError"
  by code_simp

text \<open>
  Claim C2, amended. When the \<^verbatim>\<open>try\<close> block of the similarity path raises, whatever
  the exception and wherever it is raised, \<^verbatim>\<open>search\<close> yields exactly what the fallback
  matcher yields for the same \<open>query\<close>, \<open>k\<close>, \<open>module\<close> and \<open>tags\<close>: a list of results when
  the query of the document table succeeds, and otherwise the exception of that query,
  the only one that can reach the caller.
\<close>

theorem search_falls_back_on_exception:
  assumes "model self = Some m" "collection self = Some c"
    and "vector_search B c query k module_arg tags = Inl e"
  shows "search B db fs self query k module_arg tags
           = fallback_search db fs query k module_arg tags
       \<and> (case database_query db of
            Inl e' \<Rightarrow> search B db fs self query k module_arg tags = Inl e'
          | Inr rows \<Rightarrow> (\<exists>rs. search B db fs self query k module_arg tags = Inr rs))"
proof -
  have s: "search B db fs self query k module_arg tags
             = fallback_search db fs query k module_arg tags"
    using assms by (simp add: search_def)
  show ?thesis unfolding s by (cases db) (simp_all add: fallback_search_def)
qed

theorem search_falls_back_on_exception_witness:
  "model example_tool = Some (SentenceTransformer ''all-MiniLM-L6-v2'')
   \<and> collection example_tool = Some 3
   \<and> vector_search (stub_backend (Inr broken_answer)) 3 ''refunds policy'' 3 None None
        = Inl TypeError
   \<and> search (stub_backend (Inr broken_answer)) (Documents example_rows) example_fs example_tool
        ''refunds policy'' 3 None None
        = fallback_search (Documents example_rows) example_fs ''refunds policy'' 3 None None
   \<and> search (stub_backend (Inr broken_answer)) (Documents example_rows) example_fs example_tool
        ''refunds policy'' 3 None None = Inr [stock_result, refunds_result]"
proof -
  have m: "model example_tool = Some (SentenceTransformer ''all-MiniLM-L6-v2'')"
    by (simp add: example_tool_def)
  have c: "collection example_tool = Some 3"
    by (simp add: example_tool_def)
  have v: "vector_search (stub_backend (Inr broken_answer)) 3 ''refunds policy'' 3 None None
             = Inl TypeError"
    by code_simp
  have r: "search (stub_backend (Inr broken_answer)) (Documents example_rows) example_fs
             example_tool ''refunds policy'' 3 None None = Inr [stock_result, refunds_result]"
    by code_simp
  show ?thesis
    using m c v r
      search_falls_back_on_exception [OF m c v, of "Documents example_rows" example_fs]
    by simp
qed

subsection \<open>Chunk sizes\<close>

text \<open>
  Claim C3, as stated, fails: a paragraph is never truncated. A single paragraph of 501
  characters comes back as one chunk of 501 characters.
\<close>

theorem split_document_chunk_size_counterexample:
  "split_document (replicate 501 CHR ''a'') = [replicate 501 CHR ''a'']
   \<and> map length (split_document (replicate 501 CHR ''a'')) = [501]"
  by code_simp

text \<open>
  Claim C3, amended. The chunks returned by \<^verbatim>\<open>_split_document\<close> are the joins, with the
  blank-line separator, of consecutive groups of whole stripped non-empty source
  paragraphs: the groups are not empty and, taken in order, hold every such paragraph
  once, so no paragraph is truncated and a single paragraph keeps its full length
  whatever it is. A chunk of more than one paragraph holds at most 500 characters of
  paragraph text.
\<close>

theorem split_document_whole_paragraphs:
  "\<exists>groups. concat groups = paragraphs source \<and> [] \<notin> set groups
     \<and> split_document source = map join_paragraphs groups
     \<and> (\<forall>g\<in>set groups. 1 < length g \<longrightarrow> sum_list (map length g) \<le> max_chunk_size)"
proof -
  let ?S = "split_sep source [newline, newline]"
  obtain chunks cur where loop: "split_loop ?S [] [] = (chunks, cur)"
    by (cases "split_loop ?S [] []") auto
  have "split_loop ?S (map join_paragraphs []) (join_paragraphs []) = (chunks, cur)"
    using loop by simp
  moreover have "loop_inv [] []" by (simp add: loop_inv_def)
  ultimately obtain gs g where r: "chunks = map join_paragraphs gs" "cur = join_paragraphs g"
    "concat gs @ g = paragraphs source" "loop_inv gs g"
    using split_loop_groups [of ?S "[]" "[]" chunks cur] by (auto simp: paragraphs_def)
  have tg: "\<forall>p\<in>set g. trimmed p" using r(4) by (simp add: loop_inv_def)
  let ?groups = "if g = [] then gs else gs @ [g]"
  let ?chunks = "if strip cur \<noteq> [] then chunks @ [strip cur] else chunks"
  have fin: "?chunks = map join_paragraphs ?groups"
  proof (cases "g = []")
    case True
    then have "strip cur = []" using r(2) by (simp add: strip_eq_Nil_iff)
    then show ?thesis using True r(1) by simp
  next
    case False
    then have t: "trimmed cur" using trimmed_join tg r(2) by blast
    then have "strip cur = cur" "cur \<noteq> []" by (simp_all add: strip_trimmed trimmed_def)
    then show ?thesis using False r(1,2) by simp
  qed
  have cc: "concat ?groups = paragraphs source" using r(3) by auto
  have ne: "[] \<notin> set ?groups" using r(4) by (auto simp: loop_inv_def)
  have sz: "\<forall>h\<in>set ?groups. 1 < length h \<longrightarrow> sum_list (map length h) \<le> max_chunk_size"
    using r(4) by (auto simp: loop_inv_def)
  have sd: "split_document source =
      (if ?chunks = [] \<and> strip source \<noteq> [] then [take max_chunk_size source] else ?chunks)"
    using loop by (simp add: split_document_def Let_def)
  have "\<not> (?chunks = [] \<and> strip source \<noteq> [])"
  proof
    assume a: "?chunks = [] \<and> strip source \<noteq> []"
    then have "paragraphs source \<noteq> []" by (simp add: paragraphs_nonempty)
    then have "?groups \<noteq> []" using cc by auto
    then show False using a fin by simp
  qed
  then have "split_document source = map join_paragraphs ?groups" using sd fin by simp
  then show ?thesis using cc ne sz by blast
qed

theorem split_document_whole_paragraphs_witness:
  "paragraphs (''ab'' @ [newline, newline] @ '' cd '') = [''ab'', ''cd'']
   \<and> split_document (''ab'' @ [newline, newline] @ '' cd '')
       = map join_paragraphs [[''ab'', ''cd'']]
   \<and> 1 < length [''ab'', ''cd'']
   \<and> sum_list (map length [''ab'', ''cd'']) \<le> max_chunk_size"
proof -
  let ?src = "''ab'' @ [newline, newline] @ '' cd ''"
  obtain groups where g: "concat groups = paragraphs ?src"
    "split_document ?src = map join_paragraphs groups"
    "\<forall>g\<in>set groups. 1 < length g \<longrightarrow> sum_list (map length g) \<le> max_chunk_size"
    using split_document_whole_paragraphs [of ?src] by blast
  have p: "paragraphs ?src = [''ab'', ''cd'']" by code_simp
  have d: "split_document ?src = [''ab'' @ [newline, newline] @ ''cd'']" by code_simp
  obtain g0 where "groups = [g0]" using g(2) d by (cases groups) auto
  then have gg: "groups = [[''ab'', ''cd'']]" using g(1) unfolding p by simp
  have sz: "sum_list (map length [''ab'', ''cd'']) \<le> max_chunk_size"
    using g(3) unfolding gg by simp
  have sd: "split_document ?src = map join_paragraphs [[''ab'', ''cd'']]"
    using g(2) unfolding gg .
  show ?thesis using p sd sz by simp
qed

text \<open>
  The size test adds the lengths of the buffer and of the next paragraph and leaves out
  the separator put between them: two paragraphs of 250 characters are joined into one
  chunk of 502 characters.
\<close>

lemma split_document_separator_not_counted:
  "map length (split_document
     (replicate 250 CHR ''a'' @ [newline, newline] @ replicate 250 CHR ''a'')) = [502]"
  by code_simp

subsection \<open>Empty and non-empty output of the chunker\<close>

text \<open>
  Claim C4. \<^verbatim>\<open>_split_document\<close> returns no chunk exactly when the text is empty or
  consists of whitespace only; a text with at least one non-whitespace character gives
  at least one chunk.
\<close>

theorem split_document_empty_iff_blank:
  "split_document source = [] \<longleftrightarrow> (\<forall>c\<in>set source. is_space c)"
proof
  assume e: "split_document source = []"
  have "strip source = []"
  proof (rule ccontr)
    assume "strip source \<noteq> []"
    then have "split_document source \<noteq> []"
      by (auto simp: split_document_def Let_def split: prod.splits)
    with e show False by simp
  qed
  then show "\<forall>c\<in>set source. is_space c" by (simp add: strip_eq_Nil_iff)
next
  assume ws: "\<forall>c\<in>set source. is_space c"
  have "\<forall>p\<in>set (split_sep source [newline, newline]). strip p = []"
  proof
    fix p assume "p \<in> set (split_sep source [newline, newline])"
    then have "set p \<subseteq> set source"
      using split_from_chars [of p "[newline, newline]" "[]" source]
      by (simp add: split_sep_def)
    then show "strip p = []" using ws by (auto simp: strip_eq_Nil_iff)
  qed
  then have "split_loop (split_sep source [newline, newline]) [] [] = ([], [])"
    by (rule split_loop_blank)
  moreover have "strip source = []" using ws by (simp add: strip_eq_Nil_iff)
  moreover have "strip [] = []" by (simp add: strip_eq_Nil_iff)
  ultimately show "split_document source = []"
    by (simp add: split_document_def Let_def)
qed

theorem split_document_empty_iff_blank_witness:
  "list_all is_space [CHR '' '', newline, CHR '' '']
   \<and> split_document [CHR '' '', newline, CHR '' ''] = []
   \<and> split_document [] = []
   \<and> \<not> list_all is_space '' ab ''
   \<and> split_document '' ab '' \<noteq> []"
  using split_document_empty_iff_blank [of "[CHR '' '', newline, CHR '' '']"]
    split_document_empty_iff_blank [of "[]"]
    split_document_empty_iff_blank [of "'' ab ''"]
  by (simp add: is_space_def newline_def)

subsection \<open>Tag filter\<close>

text \<open>
  Claim C5. When a tags filter \<open>t\<close> is supplied, every result that \<^verbatim>\<open>search\<close> returns
  carries a stored tag string whose tag set (split on commas, trimmed, lower-cased)
  contains every requested tag, normalised the same way; this holds for \<^verbatim>\<open>search\<close>,
  for the similarity path and for the fallback path.
\<close>

theorem search_tags_superset:
  "(search B db fs self query k module_arg (Some t) = Inr rs \<longrightarrow>
      (\<forall>r\<in>set rs. tag_set t \<subseteq> tag_set (or_empty (res_tags r))))
   \<and> (vector_search B c query k module_arg (Some t) = Inr rs \<longrightarrow>
      (\<forall>r\<in>set rs. tag_set t \<subseteq> tag_set (or_empty (res_tags r))))
   \<and> (fallback_search db fs query k module_arg (Some t) = Inr rs \<longrightarrow>
      (\<forall>r\<in>set rs. tag_set t \<subseteq> tag_set (or_empty (res_tags r))))"
  using search_cases [of B db fs self query k module_arg "Some t" rs]
    vector_search_tags [of B _ query k module_arg t rs]
    fallback_search_tags [of db fs query k module_arg t rs]
  by blast

theorem search_tags_superset_witness:
  "search (stub_backend (Inr tagged_answer)) (Documents example_rows) example_fs example_tool
      ''refunds policy'' 1 None (Some '' POLICY ,finance'') = Inr [refunds_result]
   \<and> vector_search (stub_backend (Inr tagged_answer)) 3 ''refunds policy'' 1 None
        (Some '' POLICY ,finance'') = Inr [refunds_result]
   \<and> fallback_search (Documents example_rows) example_fs ''refunds policy'' 1 None
        (Some '' POLICY ,finance'') = Inr [refunds_result]
   \<and> tag_set '' POLICY ,finance'' \<subseteq> tag_set (or_empty (res_tags refunds_result))"
proof -
  have a: "search (stub_backend (Inr tagged_answer)) (Documents example_rows) example_fs
      example_tool ''refunds policy'' 1 None (Some '' POLICY ,finance'') = Inr [refunds_result]"
    by code_simp
  have b: "vector_search (stub_backend (Inr tagged_answer)) 3 ''refunds policy'' 1 None
        (Some '' POLICY ,finance'') = Inr [refunds_result]"
    by code_simp
  have c: "fallback_search (Documents example_rows) example_fs ''refunds policy'' 1 None
        (Some '' POLICY ,finance'') = Inr [refunds_result]"
    by code_simp
  show ?thesis
    using a b c search_tags_superset [of "stub_backend (Inr tagged_answer)"
        "Documents example_rows" example_fs example_tool "''refunds policy''" 1 None
        "'' POLICY ,finance''" "[refunds_result]" 3]
    by simp
qed

subsection \<open>Scoring and ranking of the fallback matcher\<close>

text \<open>
  Claim C6. For a \<open>k\<close> that is not negative, the fallback matcher returns what the
  specification describes: each document passing the filters is scored with the
  Jaccard similarity of the lower-case word sets of the query and of its file content,
  the documents with score zero are dropped, the rest is sorted by descending score
  and cut to the first \<open>k\<close>. The scores of the returned list are in descending order.
\<close>

theorem fallback_search_is_jaccard_ranking:
  assumes "0 \<le> k"
  shows "fallback_search (Documents rows) fs query k module_arg tags =
           Inr (fallback_spec rows fs query (nat k) module_arg tags)
         \<and> sorted_wrt (\<lambda>a b. res_score a \<ge> res_score b)
             (fallback_spec rows fs query (nat k) module_arg tags)"
proof
  show "fallback_search (Documents rows) fs query k module_arg tags =
           Inr (fallback_spec rows fs query (nat k) module_arg tags)"
    using assms by (simp add: fallback_search_spec fallback_spec_def slice_to_def)
next
  let ?xs = "filter (\<lambda>r. res_score r \<noteq> 0)
         (map (scored fs query) (filter (matches_filters module_arg tags) rows))"
  have "sorted (map (\<lambda>r. - res_score r) (sort_key (\<lambda>r. - res_score r) ?xs))"
    by (rule sorted_sort_key)
  then have "sorted_wrt (\<lambda>a b. res_score a \<ge> res_score b) (sort_key (\<lambda>r. - res_score r) ?xs)"
    by (simp add: sorted_wrt_map)
  then show "sorted_wrt (\<lambda>a b. res_score a \<ge> res_score b)
             (fallback_spec rows fs query (nat k) module_arg tags)"
    unfolding fallback_spec_def by (rule sorted_wrt_take)
qed

theorem fallback_search_is_jaccard_ranking_witness:
  "0 \<le> (2::int)
   \<and> fallback_search (Documents example_rows) example_fs ''refunds policy'' 2
        (Some ''finance'') (Some ''policy'')
       = Inr (fallback_spec example_rows example_fs ''refunds policy'' (nat 2)
           (Some ''finance'') (Some ''policy''))
   \<and> fallback_spec example_rows example_fs ''refunds policy'' (nat 2)
        (Some ''finance'') (Some ''policy'') = [refunds_result]
   \<and> fallback_spec example_rows example_fs ''refunds policy'' (nat 2) None None
       = [stock_result, refunds_result]"
proof -
  have k: "0 \<le> (2::int)" by simp
  have a: "fallback_spec example_rows example_fs ''refunds policy'' (nat 2)
        (Some ''finance'') (Some ''policy'') = [refunds_result]"
    by code_simp
  have b: "fallback_spec example_rows example_fs ''refunds policy'' (nat 2) None None
       = [stock_result, refunds_result]"
    by code_simp
  show ?thesis
    using a b fallback_search_is_jaccard_ranking [OF k, of example_rows example_fs
        "''refunds policy''" "Some ''finance''" "Some ''policy''"]
    by simp
qed

subsection \<open>Idempotent build\<close>

text \<open>
  Claim C7. When the collection reports a count that is not zero,
  \<^verbatim>\<open>_load_documents_if_needed\<close> returns with the tool unchanged: the collection is the
  same and no batch has been handed to \<^verbatim>\<open>collection.add\<close>.
\<close>

theorem load_documents_if_needed_idempotent:
  assumes "collection self = Some c" "col_count B c = Inr n" "n \<noteq> 0"
  shows "load_documents_if_needed B db fs self = Inr self"
  using assms by (simp add: load_documents_if_needed_def)

theorem load_documents_if_needed_idempotent_witness:
  "collection example_tool = Some 3
   \<and> col_count (stub_backend (Inr stock_answer)) 3 = Inr 3
   \<and> (3::nat) \<noteq> 0
   \<and> load_documents_if_needed (stub_backend (Inr stock_answer)) (Documents example_rows)
        example_fs example_tool = Inr example_tool"
proof -
  have c: "collection example_tool = Some 3" by (simp add: example_tool_def)
  have n: "col_count (stub_backend (Inr stock_answer)) 3 = Inr 3" by (simp add: stub_backend_def)
  have z: "(3::nat) \<noteq> 0" by simp
  show ?thesis
    using c n load_documents_if_needed_idempotent [OF c n z, of "Documents example_rows" example_fs]
    by simp
qed

text \<open>
  For contrast, the same call on an empty collection does write: the two readable
  example documents go to \<^verbatim>\<open>collection.add\<close> in one batch.
\<close>

lemma load_into_empty_collection_writes:
  "load_documents_if_needed (stub_backend (Inr stock_answer)) (Documents example_rows)
     example_fs (example_tool\<lparr>collection := Some 0\<rparr>)
   = Inr (example_tool\<lparr>collection := Some 2,
            add_calls := [concat (map (row_entries example_fs) example_rows)]\<rparr>)"
  by code_simp

subsection \<open>Range of the scores\<close>

text \<open>
  On the fallback path every returned score is positive and at most one. On the
  similarity path a score is never negative, and it is at most one when the distance
  reported by the index is not negative.
\<close>

lemma fallback_search_score_range:
  assumes "fallback_search db fs query k module_arg tags = Inr rs" "r \<in> set rs"
  shows "0 < res_score r \<and> res_score r \<le> 1"
proof -
  obtain row where row: "r = scored fs query row" "res_score r \<noteq> 0"
    using fallback_search_members [OF assms] by blast
  have s: "res_score r = jaccard (word_set query) (word_set (file_content fs row))"
    using row(1) by (simp add: scored_def)
  have "0 \<le> res_score r" unfolding s by (rule jaccard_nonneg)
  moreover have "res_score r \<le> 1"
    unfolding s by (rule jaccard_le_one) (rule finite_word_set)+
  ultimately show ?thesis using row(2) by simp
qed

lemma vector_search_score_nonneg:
  assumes "vector_search B c query k module_arg tags = Inr rs" "r \<in> set rs"
  shows "0 \<le> res_score r"
proof -
  from vector_search_cases [OF assms(1)] assms(2)
  obtain ns where ns: "process_results k tags ns [] = Inr rs" by auto
  have "\<forall>r\<in>set rs. 0 \<le> res_score r"
  proof (rule process_results_all [OF ns])
    show "\<forall>r\<in>set []. 0 \<le> res_score r" by simp
  next
    fix doc metadata distance r
    assume "make_result doc metadata distance = Inr r"
    then show "0 \<le> res_score r" by (simp add: make_result_score)
  qed
  then show ?thesis using assms(2) by blast
qed

lemma make_result_score_le_one:
  "0 \<le> distance \<Longrightarrow> make_result doc metadata distance = Inr r \<Longrightarrow> res_score r \<le> 1"
  by (simp add: make_result_score)

text \<open>
  Claim C8 does not hold of the code on the similarity path: \<open>max(0, 1 - distance)\<close>
  bounds the score from below only. For a neighbour that the index reports at the
  distance \<open>- 1 / 8388608\<close> (a rounding residue of a cosine distance between equal vectors),
  \<^verbatim>\<open>search\<close> returns a result whose score is above one.
\<close>

theorem search_score_exceeds_one:
  "search (stub_backend (Inr near_answer)) (Documents example_rows) example_fs example_tool
     ''refunds policy'' 3 None None
     = Inr [refunds_result\<lparr>res_score := 8388609 / 8388608\<rparr>]
   \<and> (1::real) < res_score (refunds_result\<lparr>res_score := 8388609 / 8388608\<rparr>)"
  by code_simp

subsection \<open>Determinism of the fallback matcher\<close>

text \<open>
  Claim C9. The result of the fallback matcher is determined by the document rows, the
  contents of the files that the rows name, and the query arguments: two invocations
  that agree on these return the same outcome, in the same order, whatever else
  differs in the file system.
\<close>

theorem fallback_search_deterministic:
  assumes "\<forall>row\<in>set rows. \<forall>p. row_path row = Some p \<longrightarrow> fs p = fs' p"
  shows "fallback_search (Documents rows) fs query k module_arg tags
           = fallback_search (Documents rows) fs' query k module_arg tags"
proof -
  have "scored fs query row = scored fs' query row" if "row \<in> set rows" for row
  proof -
    have "read_text fs (row_path row) = read_text fs' (row_path row)"
      using assms that
      by (cases "row_path row") (simp_all add: read_text_def isfile_def open_read_def)
    then show ?thesis by (simp add: scored_def file_content_def)
  qed
  then have "map (scored fs query) (filter (matches_filters module_arg tags) rows)
           = map (scored fs' query) (filter (matches_filters module_arg tags) rows)"
    by (intro map_cong) auto
  then show ?thesis by (simp only: fallback_search_spec)
qed

theorem fallback_search_deterministic_witness:
  "map row_path example_rows = [Some ''refunds.txt'', Some ''stock.txt'', Some ''gone.txt'']
   \<and> example_fs ''refunds.txt'' = other_fs ''refunds.txt''
   \<and> example_fs ''stock.txt'' = other_fs ''stock.txt''
   \<and> example_fs ''gone.txt'' = other_fs ''gone.txt''
   \<and> example_fs ''notes.txt'' \<noteq> other_fs ''notes.txt''
   \<and> fallback_search (Documents example_rows) example_fs ''refunds policy'' 3 None None
       = fallback_search (Documents example_rows) other_fs ''refunds policy'' 3 None None
   \<and> fallback_search (Documents example_rows) example_fs ''refunds policy'' 3 None None
       = Inr [stock_result, refunds_result]"
proof -
  have h: "\<forall>row\<in>set example_rows. \<forall>p. row_path row = Some p \<longrightarrow> example_fs p = other_fs p"
    by (simp add: example_rows_def other_fs_def)
  have d: "example_fs ''notes.txt'' \<noteq> other_fs ''notes.txt''"
    by (simp add: example_fs_def other_fs_def)
  have v: "fallback_search (Documents example_rows) example_fs ''refunds policy'' 3 None None
       = Inr [stock_result, refunds_result]"
    by code_simp
  have p: "map row_path example_rows
             = [Some ''refunds.txt'', Some ''stock.txt'', Some ''gone.txt'']"
    by (simp add: example_rows_def)
  have e: "example_fs ''refunds.txt'' = other_fs ''refunds.txt''"
    "example_fs ''stock.txt'' = other_fs ''stock.txt''"
    "example_fs ''gone.txt'' = other_fs ''gone.txt''"
    by (simp_all add: other_fs_def)
  show ?thesis
    using p e d v fallback_search_deterministic [OF h, of "''refunds policy''" 3 None None]
    by simp
qed

subsection \<open>A limit that is not positive\<close>

text \<open>
  Claim C10, as stated, fails for a negative \<open>k\<close>: the slice \<^verbatim>\<open>results[:k]\<close> of the
  fallback path then drops the last \<open>-k\<close> candidates instead of all of them. With two
  matching documents and \<open>k = -1\<close> the fallback path returns one result.
\<close>

theorem fallback_negative_k_counterexample:
  "fallback_search (Documents example_rows) example_fs ''refunds policy'' (- 1) None None
     = Inr [stock_result]"
  by code_simp

text \<open>
  Claim C10, amended. For \<open>k = 0\<close> the fallback path returns the empty list; for a
  negative \<open>k\<close> it returns the candidates, sorted by descending score, without their
  last \<open>-k\<close> entries. For \<open>k \<le> 0\<close> the similarity path, when it returns, returns at
  most one result, and the loop over the neighbours returns exactly one if and only
  if some neighbour passes the tag filter: the result is appended before the length
  is compared with \<open>k\<close>.
\<close>

theorem search_nonpositive_k:
  assumes "k \<le> 0"
  shows "fallback_search (Documents rows) fs query k module_arg tags
           = Inr (if k = 0 then []
                  else take (length (fallback_spec rows fs query (length rows) module_arg tags)
                               - nat (- k))
                         (fallback_spec rows fs query (length rows) module_arg tags))
       \<and> (vector_search B c query k module_arg tags = Inr rs \<longrightarrow> length rs \<le> 1)
       \<and> (process_results k tags ns [] = Inr rs \<longrightarrow>
            (length rs = 1 \<longleftrightarrow> (\<exists>n\<in>set ns. passes_tag_filter tags n)))"
proof -
  let ?cands = "sort_key (\<lambda>r. - res_score r) (filter (\<lambda>r. res_score r \<noteq> 0)
         (map (scored fs query) (filter (matches_filters module_arg tags) rows)))"
  have "length ?cands \<le> length rows"
    by (simp add: le_trans [OF length_filter_le])
  then have all: "fallback_spec rows fs query (length rows) module_arg tags = ?cands"
    by (simp add: fallback_spec_def)
  have f: "fallback_search (Documents rows) fs query k module_arg tags
           = Inr (if k = 0 then [] else take (length ?cands - nat (- k)) ?cands)"
    using assms by (simp add: fallback_search_spec slice_to_def)
  have v: "length rs \<le> 1" if "vector_search B c query k module_arg tags = Inr rs"
    using vector_search_cases [OF that] assms process_results_nonpositive [of k tags _ rs]
    by auto
  have p: "length rs = 1 \<longleftrightarrow> (\<exists>n\<in>set ns. passes_tag_filter tags n)"
    if "process_results k tags ns [] = Inr rs"
    using process_results_nonpositive [OF assms that] by simp
  show ?thesis using f v p unfolding all by blast
qed

theorem search_nonpositive_k_witness:
  "(- 1::int) \<le> 0
   \<and> fallback_search (Documents example_rows) example_fs ''refunds policy'' (- 1) None None
       = Inr (take (length [stock_result, refunds_result] - nat (- (- 1)))
                [stock_result, refunds_result])
   \<and> vector_search (stub_backend (Inr tagged_answer)) 3 ''refunds policy'' (- 1) None None
       = Inr [stock_result]
   \<and> process_results (- 1) None tagged_neighbours [] = Inr [stock_result]
   \<and> (\<exists>n\<in>set tagged_neighbours. passes_tag_filter None n)
   \<and> length [stock_result] = 1"
proof -
  have k: "(- 1::int) \<le> 0" by simp
  have a: "fallback_spec example_rows example_fs ''refunds policy'' (length example_rows)
             None None = [stock_result, refunds_result]"
    by code_simp
  have b: "vector_search (stub_backend (Inr tagged_answer)) 3 ''refunds policy'' (- 1) None None
       = Inr [stock_result]"
    by code_simp
  have c: "process_results (- 1) None tagged_neighbours [] = Inr [stock_result]"
    by code_simp
  show ?thesis
    using a b c search_nonpositive_k [OF k, of example_rows example_fs "''refunds policy''"
        None None "stub_backend (Inr tagged_answer)" 3 "[stock_result]" tagged_neighbours]
    by simp
qed

end
